theory Spec2Isabelle
  imports Main "HOL-Library.Char_ord" "HOL-Library.List_Lexorder"
begin

section \<open>Connections and the connection registry (package msgcenter)\<close>

text \<open>
  A connection as the registry and the service center see it: the methods
  \<^verbatim>\<open>Username()\<close>, \<^verbatim>\<open>UniqId()\<close> and \<^verbatim>\<open>Visible()\<close> are pure getters, so they are fields.
  A \<^verbatim>\<open>minimalConn\<close> interface value may be nil: it is a \<open>conn option\<close>, \<open>None\<close> for nil.
\<close>

record conn =
  Username :: string
  UniqId :: string
  Visible :: bool

text \<open>\<^verbatim>\<open>type connListItem struct { name string; list []minimalConn }\<close>\<close>

record connListItem =
  name :: string
  list :: "conn list"

definition connKey :: "conn \<Rightarrow> string" where
  "connKey c = Username c"

text \<open>\<^verbatim>\<open>key()\<close>: the name when the list is empty, the user of the first connection otherwise.\<close>

definition key :: "connListItem \<Rightarrow> string" where
  "key self = (case list self of [] \<Rightarrow> name self | c # _ \<Rightarrow> connKey c)"

text \<open>
  \<^verbatim>\<open>Less\<close> compares the keys as \<^verbatim>\<open>llrb.String\<close>, that is bytewise; the order on \<open>string\<close>
  is the lexicographic order on the character codes.
\<close>

definition Less :: "connListItem \<Rightarrow> connListItem \<Rightarrow> bool" where
  "Less self than = (key self < key than)"

subsection \<open>The ordered tree\<close>

text \<open>
  Modelled from the spec: the ordered map holding the entries. The tree package
  (\<^verbatim>\<open>github.com/petar/GoLLRB/llrb\<close>) is imported by the registry and is not part of the
  sources at hand; the spec (4.1, 9) asks for "an ordered key to value structure" and says
  that "any logarithmic ordered map suffices". The registry reaches the tree through
  \<^verbatim>\<open>Get\<close>, \<^verbatim>\<open>ReplaceOrInsert\<close>, \<^verbatim>\<open>Delete\<close> and \<^verbatim>\<open>Len\<close> only, none of which shows the order
  of the items, so the tree is the list of its items; two items are the same entry when
  neither is \<open>Less\<close> than the other. \<open>Get\<close> returns the stored item equal to the probe,
  \<open>ReplaceOrInsert\<close> replaces the stored item equal to the new one or else adds the new
  one, \<open>Delete\<close> removes the stored item equal to the probe and returns it, \<open>Len\<close> counts
  the items.
\<close>

type_synonym LLRB = "connListItem list"

fun Get :: "LLRB \<Rightarrow> connListItem \<Rightarrow> connListItem option" where
  "Get [] k = None"
| "Get (x # xs) k = (if \<not> Less x k \<and> \<not> Less k x then Some x else Get xs k)"

fun ReplaceOrInsert :: "LLRB \<Rightarrow> connListItem \<Rightarrow> LLRB" where
  "ReplaceOrInsert [] it = [it]"
| "ReplaceOrInsert (x # xs) it =
     (if \<not> Less x it \<and> \<not> Less it x then it # xs else x # ReplaceOrInsert xs it)"

fun Delete :: "LLRB \<Rightarrow> connListItem \<Rightarrow> LLRB \<times> connListItem option" where
  "Delete [] k = ([], None)"
| "Delete (x # xs) k =
     (if \<not> Less x k \<and> \<not> Less k x then (xs, Some x)
      else (case Delete xs k of (xs', r) \<Rightarrow> (x # xs', r)))"

definition Len :: "LLRB \<Rightarrow> int" where
  "Len t = int (length t)"

subsection \<open>The registry operations\<close>

datatype error = ErrTooManyUsers | ErrTooManyConnForThisUser | ErrTooManyConns

text \<open>
  \<^verbatim>\<open>GetConn\<close>: the probe is \<^verbatim>\<open>connListItem{name: user, list: nil}\<close>; the result is nil
  (\<open>None\<close>) when nothing is stored under the user, the stored slice otherwise.
\<close>

definition GetConn :: "LLRB \<Rightarrow> string \<Rightarrow> conn list option" where
  "GetConn tree user =
     (case Get tree \<lparr>name = user, list = []\<rparr> of
        None \<Rightarrow> None
      | Some cl \<Rightarrow> Some (list cl))"

text \<open>
  The duplicate scan of \<^verbatim>\<open>AddConn\<close>:
  \<^verbatim>\<open>for _, c := range cl { if c.UniqId() == conn.UniqId() { return nil } }\<close>.
\<close>

fun has_uniqId :: "string \<Rightarrow> conn list \<Rightarrow> bool" where
  "has_uniqId uid [] = False"
| "has_uniqId uid (c # cs) = (if UniqId c = uid then True else has_uniqId uid cs)"

text \<open>
  \<^verbatim>\<open>AddConn\<close> returns the tree it leaves behind and the error (\<open>None\<close> for a nil error).
  The checks come in the order of the source: nil connection, user cap (only when the
  user has no entry), per-user cap, duplicate id, insertion. Go's \<^verbatim>\<open>int\<close> caps and lengths
  are integers; no sum here can overflow.
\<close>

definition AddConn :: "LLRB \<Rightarrow> conn option \<Rightarrow> int \<Rightarrow> int \<Rightarrow> LLRB \<times> error option" where
  "AddConn tree conn maxNrConnsPerUser maxNrUsers =
     (case conn of
        None \<Rightarrow> (tree, None)
      | Some c \<Rightarrow>
         (let found = GetConn tree (connKey c) in
          if found = None \<and> maxNrUsers > 0 \<and> Len tree \<ge> maxNrUsers
            then (tree, Some ErrTooManyUsers)
          else
           (let cl = (case found of None \<Rightarrow> [] | Some l \<Rightarrow> l) in
            if maxNrConnsPerUser > 0 \<and> int (length cl) \<ge> maxNrConnsPerUser
              then (tree, Some ErrTooManyConnForThisUser)
            else if has_uniqId (UniqId c) cl
              then (tree, None)
            else (ReplaceOrInsert tree \<lparr>name = [], list = cl @ [c]\<rparr>, None))))"

text \<open>
  The scan of \<^verbatim>\<open>DelConn\<close>: \<^verbatim>\<open>i := -1; for i, c = range cl { if ... { break } }\<close>.
  The range clause assigns the index to \<open>i\<close> at every iteration, so \<open>i\<close> is the index
  of the first match when the loop breaks and the last index visited when it does not.
  \<open>range_scan uid cl k i\<close> runs the loop over the rest \<open>cl\<close> of the slice, \<open>k\<close> being the
  index of its head and \<open>i\<close> the current value of the variable.
\<close>

fun range_scan :: "string \<Rightarrow> conn list \<Rightarrow> nat \<Rightarrow> int \<Rightarrow> int" where
  "range_scan uid [] k i = i"
| "range_scan uid (c # cs) k i =
     (if UniqId c = uid then int k else range_scan uid cs (Suc k) (int k))"

text \<open>
  The slice \<^verbatim>\<open>GetConn\<close> returns shares its array with the item stored in the tree, so
  \<^verbatim>\<open>cl[i] = cl[len(cl)-1]\<close> in \<^verbatim>\<open>DelConn\<close> also writes cell \<open>i\<close> of the stored item's list:
  \<open>write_shared tree k i v\<close> writes \<open>v\<close> there, \<open>k\<close> being the probe that found the item.
\<close>

fun write_shared :: "LLRB \<Rightarrow> connListItem \<Rightarrow> nat \<Rightarrow> conn \<Rightarrow> LLRB" where
  "write_shared [] k i v = []"
| "write_shared (x # xs) k i v =
     (if \<not> Less x k \<and> \<not> Less k x then x\<lparr>list := (list x)[i := v]\<rparr> # xs
      else x # write_shared xs k i v)"

text \<open>
  \<^verbatim>\<open>DelConn\<close> returns the tree it leaves behind and its boolean. In the last branch the
  slice has two connections or more, so the index \<open>i\<close> is within it and the shortened
  slice is not empty.
\<close>

definition DelConn :: "LLRB \<Rightarrow> conn option \<Rightarrow> LLRB \<times> bool" where
  "DelConn tree conn =
     (case conn of
        None \<Rightarrow> (tree, False)
      | Some c \<Rightarrow>
         (case GetConn tree (connKey c) of
            None \<Rightarrow> (tree, False)
          | Some cl \<Rightarrow>
             (let i = range_scan (UniqId c) cl 0 (- 1) in
              if i < 0 then (tree, False)
              else if length cl = 1 then
                (case Delete tree \<lparr>name = connKey c, list = cl\<rparr> of
                   (tree', None) \<Rightarrow> (tree', False)
                 | (tree', Some d) \<Rightarrow> (tree', True))
              else
                (let tree1 = write_shared tree \<lparr>name = connKey c, list = []\<rparr> (nat i) (last cl);
                     cl' = butlast (cl[nat i := last cl]);
                     k = \<lparr>name = connKey c, list = cl'\<rparr>
                 in if length cl' = 0 then (fst (Delete tree1 k), True)
                    else (ReplaceOrInsert tree1 k, True)))))"

definition newTreeBasedConnMap :: LLRB where
  "newTreeBasedConnMap = []"

section \<open>The service center's event loop (process)\<close>

text \<open>
  The loop owns two variables, \<^verbatim>\<open>connMap\<close> and \<^verbatim>\<open>nrConns\<close>. \<^verbatim>\<open>nrConns\<close> is a Go \<^verbatim>\<open>int\<close>
  that moves by one per event; it is an integer here.
\<close>

record center =
  connMap :: LLRB
  nrConns :: int

definition newCenter :: center where
  "newCenter = \<lparr>connMap = newTreeBasedConnMap, nrConns = 0\<rparr>"

text \<open>
  The join and leave events. \<open>EventConnIn errChan conn\<close>: \<open>errChan\<close> tells whether the
  reply channel is non-nil. \<open>EventConnLeave conn\<close>: the cause of the leave only goes to the
  logout hook and is left out.
\<close>

datatype event = EventConnIn bool "conn option" | EventConnLeave "conn option"

text \<open>What a join sends on the reply channel: nothing on a nil channel, the error otherwise.\<close>

definition reply :: "bool \<Rightarrow> error option \<Rightarrow> error option list" where
  "reply errChan e = (if errChan then [e] else [])"

text \<open>\<^verbatim>\<open>case connInEvt := <-self.connIn\<close>: the new state and what is sent on the reply channel.\<close>

definition connIn :: "int \<Rightarrow> int \<Rightarrow> int \<Rightarrow> center \<Rightarrow> bool \<Rightarrow> conn option
    \<Rightarrow> center \<times> error option list" where
  "connIn maxNrConns maxNrConnsPerUser maxNrUsers s errChan c =
     (if maxNrConns > 0 \<and> nrConns s \<ge> maxNrConns
        then (s, reply errChan (Some ErrTooManyConns))
      else
        (case AddConn (connMap s) c maxNrConnsPerUser maxNrUsers of
           (tree', Some e) \<Rightarrow> (s\<lparr>connMap := tree'\<rparr>, reply errChan (Some e))
         | (tree', None) \<Rightarrow>
             (s\<lparr>connMap := tree', nrConns := nrConns s + 1\<rparr>, reply errChan None)))"

text \<open>
  \<^verbatim>\<open>case leaveEvt := <-self.connLeave\<close>: the new state and whether the logout hook is
  reported. A nil connection makes \<^verbatim>\<open>leaveEvt.conn.UniqId()\<close> panic after \<^verbatim>\<open>DelConn\<close> has
  returned: the result is \<open>None\<close>.
\<close>

definition connLeave :: "center \<Rightarrow> conn option \<Rightarrow> (center \<times> bool) option" where
  "connLeave s c =
     (case DelConn (connMap s) c of
        (tree', deleted) \<Rightarrow>
          (case c of
             None \<Rightarrow> None
           | Some _ \<Rightarrow>
               Some (if deleted then (s\<lparr>connMap := tree', nrConns := nrConns s - 1\<rparr>, True)
                     else (s\<lparr>connMap := tree'\<rparr>, False))))"

text \<open>
  The loop over a sequence of join and leave events (the subscribe and write cases touch
  neither \<^verbatim>\<open>connMap\<close> nor \<^verbatim>\<open>nrConns\<close>); \<open>None\<close> when the loop panics.
\<close>

fun process :: "int \<Rightarrow> int \<Rightarrow> int \<Rightarrow> center \<Rightarrow> event list \<Rightarrow> center option" where
  "process maxNrConns maxNrConnsPerUser maxNrUsers s [] = Some s"
| "process maxNrConns maxNrConnsPerUser maxNrUsers s (EventConnIn errChan c # evts) =
     process maxNrConns maxNrConnsPerUser maxNrUsers
       (fst (connIn maxNrConns maxNrConnsPerUser maxNrUsers s errChan c)) evts"
| "process maxNrConns maxNrConnsPerUser maxNrUsers s (EventConnLeave c # evts) =
     (case connLeave s c of
        None \<Rightarrow> None
      | Some (s', _) \<Rightarrow> process maxNrConns maxNrConnsPerUser maxNrUsers s' evts)"

text \<open>The sum of the lengths of the registry's entries.\<close>

definition sumEntryLengths :: "LLRB \<Rightarrow> int" where
  "sumEntryLengths tree = sum_list (map (\<lambda>e. int (length (list e))) tree)"

section \<open>Messages and push information\<close>

text \<open>
  Modelled from the spec: the message type (\<^verbatim>\<open>proto.Message\<close> is declared in a package that
  is not part of the sources at hand). Spec 3: "Opaque payload with two distinguished
  attributes: sender, senderService (both strings), and a string to string header map".
  The header is a Go map that \<^verbatim>\<open>getPushInfo\<close> ranges over: it is the list of its entries, in
  the order the range statement visits them, and a lookup is \<open>map_of\<close>. The method
  \<^verbatim>\<open>Size()\<close> is not at hand either: every function below that needs it takes it as the
  parameter \<open>Size\<close>, an arbitrary function of the message.
\<close>

record message =
  Sender :: string
  SenderService :: string
  Header :: "(string \<times> string) list"

text \<open>\<^verbatim>\<open>strings.HasPrefix(s, prefix)\<close>\<close>

definition HasPrefix :: "string \<Rightarrow> string \<Rightarrow> bool" where
  "HasPrefix s p = (length s \<ge> length p \<and> take (length p) s = p)"

text \<open>\<^verbatim>\<open>delete(m, k)\<close> on the list of entries.\<close>

definition delete_key :: "string \<Rightarrow> (string \<times> string) list \<Rightarrow> (string \<times> string) list" where
  "delete_key k h = filter (\<lambda>kv. fst kv \<noteq> k) h"

text \<open>\<^verbatim>\<open>fmt.Sprintf("%v", n)\<close> for an \<^verbatim>\<open>int\<close>: the decimal digits, after a minus sign if negative.\<close>

definition digit :: "nat \<Rightarrow> char" where
  "digit d = char_of (48 + d)"

function decimal_nat :: "nat \<Rightarrow> string" where
  "decimal_nat n = (if n < 10 then [digit n] else decimal_nat (n div 10) @ [digit (n mod 10)])"
  by pat_completeness auto
termination
  by (relation "measure id") auto

declare decimal_nat.simps [simp del]

definition decimal :: "int \<Rightarrow> string" where
  "decimal i = (if i < 0 then CHR ''-'' # decimal_nat (nat (- i)) else decimal_nat (nat i))"

text \<open>
  The loop \<^verbatim>\<open>for k, v := range msg.Header\<close> of \<^verbatim>\<open>getPushInfo\<close>, over the entries still to
  visit, with the two maps it writes: \<^verbatim>\<open>extra\<close> (a partial function) and the header.
  An entry is deleted only while it is the one being visited, so the range statement
  visits every entry of the header once.
\<close>

fun copyNotif :: "(string \<times> string) list \<Rightarrow> (string \<rightharpoonup> string) \<times> (string \<times> string) list
    \<Rightarrow> (string \<rightharpoonup> string) \<times> (string \<times> string) list" where
  "copyNotif [] (extra, h) = (extra, h)"
| "copyNotif ((k, v) # kvs) (extra, h) =
     (if HasPrefix k ''notif.'' then
        (if HasPrefix k ''notif.uniqush.'' then copyNotif kvs (extra, h)
         else copyNotif kvs (extra(k \<mapsto> v), delete_key k h))
      else copyNotif kvs (extra, h))"

text \<open>\<^verbatim>\<open>if extra == nil { extra = make(map[string]string, ...) }\<close>: a nil map is \<open>None\<close>.\<close>

definition makeIfNil :: "(string \<rightharpoonup> string) option \<Rightarrow> (string \<rightharpoonup> string)" where
  "makeIfNil extra = (case extra of None \<Rightarrow> Map.empty | Some e \<Rightarrow> e)"

text \<open>
  \<^verbatim>\<open>getPushInfo\<close> returns the map \<^verbatim>\<open>extra\<close> and the message as it leaves it (the message is
  passed by pointer and its header is written in place).
\<close>

definition getPushInfo :: "(message \<Rightarrow> int) \<Rightarrow> message \<Rightarrow> (string \<rightharpoonup> string) option \<Rightarrow> bool
    \<Rightarrow> (string \<rightharpoonup> string) \<times> message" where
  "getPushInfo Size msg extra fwd =
     (let extra0 = makeIfNil extra;
          (extra1, msg1) =
            (if fwd then
               (case copyNotif (Header msg) (extra0, Header msg) of
                  (e, h) \<Rightarrow>
                    (e(''uniqush.sender'' \<mapsto> Sender msg,
                       ''uniqush.sender-service'' \<mapsto> SenderService msg),
                     msg\<lparr>Header := h\<rparr>))
             else (extra0, msg));
          extra2 =
            (case map_of (Header msg1) ''title'' of
               None \<Rightarrow> extra1
             | Some title \<Rightarrow>
                 (if extra1 ''notif.msg'' = None then extra1(''notif.msg'' \<mapsto> title)
                  else extra1))
      in (extra2(''notif.uniqush.msgsize'' \<mapsto> decimal (Size msg1)), msg1))"

section \<open>The write event and the push fallback\<close>

text \<open>
  The collaborators the service center calls are parameters of the model. The cache
  answers its \<open>i\<close>-th call of a task with an id and an error (\<open>None\<close> for nil); the push
  hook answers \<^verbatim>\<open>ShouldPush\<close> from the push info; the push service has a number of
  delivery points and answers \<^verbatim>\<open>Push\<close> with an error. A nil interface is \<open>None\<close>;
  for the error hook only its presence matters.
\<close>

record PushService =
  NrDeliveryPoints :: int
  Push :: "(string \<rightharpoonup> string) \<Rightarrow> string list \<Rightarrow> string option"

record ServiceConfig =
  MsgCache :: "(nat \<Rightarrow> string \<times> string option) option"
  ErrorHandler :: bool
  PushHandler :: "((string \<rightharpoonup> string) \<Rightarrow> bool) option"
  PushService :: "PushService option"

text \<open>\<^verbatim>\<open>&Result{err, sconn.UniqId(), sconn.Visible()}\<close>\<close>

datatype Result = Result "string option" string bool

record writeMessageRequest =
  user :: string
  msg :: message
  ttl :: int
  extra :: "(string \<rightharpoonup> string) option"
  resChan :: bool

text \<open>
  The goroutines a write event starts: the error hook (\<^verbatim>\<open>reportError\<close>, connection id and
  error), the push fallback (service, user, message, extra, fwd, ttl) and the task that
  posts the failed connections to the leave channel.
\<close>

datatype task =
    OnErrorTask string string
  | PushFallbackTask string string message "(string \<rightharpoonup> string) option" bool int
  | TeardownTask "(conn \<times> string) list"

definition reportErrorTask :: "ServiceConfig \<Rightarrow> string \<Rightarrow> string \<Rightarrow> task list" where
  "reportErrorTask config connId err = (if ErrorHandler config then [OnErrorTask connId err] else [])"

text \<open>
  The delivery loop \<^verbatim>\<open>for _, conn := range conns\<close> with its variables \<^verbatim>\<open>res\<close>, \<^verbatim>\<open>errConns\<close>,
  \<^verbatim>\<open>n\<close> and the goroutines started so far. \<open>SendMessage c\<close> is the error the connection's
  \<^verbatim>\<open>SendMessage\<close> returns. The registry only holds what a join event carried, a non-nil
  \<^verbatim>\<open>server.Conn\<close>, so the two \<^verbatim>\<open>continue\<close> guards never fire.
\<close>

fun deliver :: "ServiceConfig \<Rightarrow> (conn \<Rightarrow> string option) \<Rightarrow> conn list
    \<Rightarrow> Result list \<times> (conn \<times> string) list \<times> int \<times> task list
    \<Rightarrow> Result list \<times> (conn \<times> string) list \<times> int \<times> task list" where
  "deliver config SendMessage [] acc = acc"
| "deliver config SendMessage (c # cs) (res, errConns, n, started) =
     (case SendMessage c of
        Some err \<Rightarrow>
          deliver config SendMessage cs
            (res @ [Result (Some err) (UniqId c) (Visible c)], errConns @ [(c, err)], n,
             started @ reportErrorTask config (UniqId c) err)
      | None \<Rightarrow>
          deliver config SendMessage cs
            (res @ [Result None (UniqId c) (Visible c)], errConns,
             (if Visible c then n + 1 else n), started))"

text \<open>
  \<^verbatim>\<open>case wreq := <-self.writeReqChan\<close>: what is sent on the result channel and the
  goroutines started, in order.
\<close>

definition writeReq :: "ServiceConfig \<Rightarrow> string \<Rightarrow> (conn \<Rightarrow> string option) \<Rightarrow> LLRB
    \<Rightarrow> writeMessageRequest \<Rightarrow> Result list list \<times> task list" where
  "writeReq config serviceName SendMessage tree wreq =
     (let conns = (case GetConn tree (user wreq) of None \<Rightarrow> [] | Some l \<Rightarrow> l) in
      case deliver config SendMessage conns ([], [], 0, []) of
        (res, errConns, n, started) \<Rightarrow>
          (let fwd = (length (Sender (msg wreq)) > 0 \<and> length (SenderService (msg wreq)) > 0
                       \<and> (Sender (msg wreq) \<noteq> user wreq \<or> SenderService (msg wreq) \<noteq> serviceName));
               fallback = (if n = 0
                            then [PushFallbackTask serviceName (user wreq) (msg wreq) (extra wreq) fwd
                                    (ttl wreq)]
                            else [])
           in ((if resChan wreq then [res] else []),
               started @ fallback @ [TeardownTask errConns])))"

text \<open>The calls a push-fallback task makes, in order, with what they answer.\<close>

datatype effect =
    ShouldPushCall bool
  | CacheMessageCall nat "string option"
  | PushCall "string list" "string option"
  | OnErrorCall string

definition nrDeliveryPoints :: "ServiceConfig \<Rightarrow> int" where
  "nrDeliveryPoints config =
     (case PushService config of None \<Rightarrow> 0 | Some ps \<Rightarrow> NrDeliveryPoints ps)"

definition cacheMessage :: "ServiceConfig \<Rightarrow> nat \<Rightarrow> string \<times> string option" where
  "cacheMessage config i = (case MsgCache config of None \<Rightarrow> ([], None) | Some c \<Rightarrow> c i)"

definition reportError :: "ServiceConfig \<Rightarrow> string \<Rightarrow> effect list" where
  "reportError config err = (if ErrorHandler config then [OnErrorCall err] else [])"

definition pushNotif :: "ServiceConfig \<Rightarrow> (message \<Rightarrow> int) \<Rightarrow> message
    \<Rightarrow> (string \<rightharpoonup> string) option \<Rightarrow> string list \<Rightarrow> bool \<Rightarrow> effect list" where
  "pushNotif config Size m ex msgIds fwd =
     (case PushService config of
        None \<Rightarrow> []
      | Some ps \<Rightarrow>
          (case getPushInfo Size m ex fwd of
             (info, _) \<Rightarrow>
               (case Push ps info msgIds of
                  None \<Rightarrow> [PushCall msgIds None]
                | Some err \<Rightarrow> PushCall msgIds (Some err) # reportError config err)))"

text \<open>
  \<^verbatim>\<open>for i := 0; i < n; i++ { msgIds[i], e = self.cacheMessage(...); if e != nil { return } }\<close>:
  \<open>None\<close> when the task returns from inside the loop.
\<close>

function cacheLoop :: "ServiceConfig \<Rightarrow> nat \<Rightarrow> nat \<Rightarrow> string list \<Rightarrow> effect list
    \<Rightarrow> string list option \<times> effect list" where
  "cacheLoop config i n msgIds tr =
     (if i < n then
        (case cacheMessage config i of
           (mid, Some err) \<Rightarrow> (None, tr @ [CacheMessageCall i (Some err)])
         | (mid, None) \<Rightarrow>
             cacheLoop config (Suc i) n (msgIds[i := mid]) (tr @ [CacheMessageCall i None]))
      else (Some msgIds, tr))"
  by pat_completeness auto
termination
  by (relation "measure (\<lambda>(config, i, n, msgIds, tr). n - i)") auto

declare cacheLoop.simps [simp del]

text \<open>
  The body of the push-fallback goroutine. \<^verbatim>\<open>shouldPush\<close> and \<^verbatim>\<open>pushNotif\<close> both call
  \<^verbatim>\<open>getPushInfo\<close> on the same message pointer and the same variable \<^verbatim>\<open>extra\<close>: the second
  call sees the header as the first left it, and the map the first call filled when
  \<^verbatim>\<open>extra\<close> was not nil (a nil \<^verbatim>\<open>extra\<close> stays nil).
\<close>

definition pushFallback :: "ServiceConfig \<Rightarrow> (message \<Rightarrow> int) \<Rightarrow> message
    \<Rightarrow> (string \<rightharpoonup> string) option \<Rightarrow> bool \<Rightarrow> effect list" where
  "pushFallback config Size m ex fwd =
     (case PushHandler config of
        None \<Rightarrow> []
      | Some ShouldPush \<Rightarrow>
          (case getPushInfo Size m ex fwd of
             (info, m1) \<Rightarrow>
               (let ex1 = (case ex of None \<Rightarrow> None | Some _ \<Rightarrow> Some info) in
                if \<not> ShouldPush info then [ShouldPushCall False]
                else
                  (let n = nrDeliveryPoints config in
                   if n \<le> 0 then [ShouldPushCall True]
                   else
                     (case cacheLoop config 0 (nat n) (replicate (nat n) []) [ShouldPushCall True] of
                        (None, tr) \<Rightarrow> tr
                      | (Some msgIds, tr) \<Rightarrow> tr @ pushNotif config Size m1 ex1 msgIds fwd)))))"

section \<open>Web hooks in the configuration (package configparser)\<close>

text \<open>
  Modelled from the spec: the configuration tree (the YAML package is imported, not part
  of the sources at hand). Spec 6: a "YAML-like map"; a node is a scalar, a map from keys
  to nodes, or a list. A \<^verbatim>\<open>time.Duration\<close> is a signed count of nanoseconds;
  \<^verbatim>\<open>time.ParseDuration\<close> is the parameter \<open>ParseDuration\<close>, \<open>None\<close> when it returns an error.
\<close>

datatype Node = yaml_Scalar string | yaml_Map "(string \<times> Node) list" | yaml_List "Node list"

definition Second :: int where
  "Second = 1000000000"

datatype parse_error =
    NotAScalar | TimeoutNotAScalar | BadDuration
  | WebhookUrlNotString | WebhookNoUrl | WebhookTimeoutError parse_error
  | WebhookDefaultNotString | WebhookNotAMap | ServiceTimeoutError parse_error

definition parseString :: "Node option \<Rightarrow> parse_error + string" where
  "parseString node =
     (case node of
        None \<Rightarrow> Inr []
      | Some (yaml_Scalar scalar) \<Rightarrow> Inr scalar
      | Some _ \<Rightarrow> Inl NotAScalar)"

definition parseDuration :: "(string \<Rightarrow> int option) \<Rightarrow> Node \<Rightarrow> parse_error + int" where
  "parseDuration ParseDuration node =
     (case node of
        yaml_Scalar scalar \<Rightarrow>
          (case ParseDuration scalar of None \<Rightarrow> Inl BadDuration | Some t \<Rightarrow> Inr t)
      | _ \<Rightarrow> Inl TimeoutNotAScalar)"

record webhookInfo =
  url :: string
  timeout :: int
  defaultValue :: string

text \<open>\<^verbatim>\<open>parseWebHook\<close>: \<^verbatim>\<open>new(webhookInfo)\<close> has the zero timeout until a timeout field is read.\<close>

definition parseWebHook :: "(string \<Rightarrow> int option) \<Rightarrow> Node \<Rightarrow> parse_error + webhookInfo" where
  "parseWebHook ParseDuration node =
     (case node of
        yaml_Map kv \<Rightarrow>
          (case map_of kv ''url'' of
             None \<Rightarrow> Inl WebhookNoUrl
           | Some u \<Rightarrow>
               (case parseString (Some u) of
                  Inl _ \<Rightarrow> Inl WebhookUrlNotString
                | Inr hurl \<Rightarrow>
                    (case (case map_of kv ''timeout'' of
                             None \<Rightarrow> Inr 0
                           | Some t \<Rightarrow> parseDuration ParseDuration t) of
                       Inl e \<Rightarrow> Inl (WebhookTimeoutError e)
                     | Inr htimeout \<Rightarrow>
                         (case (case map_of kv ''default'' of
                                  None \<Rightarrow> Inr []
                                | Some d \<Rightarrow> parseString (Some d)) of
                            Inl _ \<Rightarrow> Inl WebhookDefaultNotString
                          | Inr hdefault \<Rightarrow>
                              Inr \<lparr>url = hurl, timeout = htimeout, defaultValue = hdefault\<rparr>))))
      | _ \<Rightarrow> Inl WebhookNotAMap)"

text \<open>\<^verbatim>\<open>type webHook struct { URL string; Timeout time.Duration; Default int }\<close> and its setters.\<close>

record webHook =
  URL :: string
  Timeout :: int
  Default :: int

definition SetURL :: "webHook \<Rightarrow> string \<Rightarrow> webHook" where
  "SetURL self u = self\<lparr>URL := u\<rparr>"

definition SetTimeout :: "webHook \<Rightarrow> int \<Rightarrow> webHook" where
  "SetTimeout self t = self\<lparr>Timeout := t\<rparr>"

definition SetDefault :: "webHook \<Rightarrow> int \<Rightarrow> webHook" where
  "SetDefault self d = self\<lparr>Default := d\<rparr>"

definition newWebHook :: webHook where
  "newWebHook = \<lparr>URL = [], Timeout = 0, Default = 0\<rparr>"

text \<open>\<^verbatim>\<open>setWebHook(hd, node, timeout)\<close>: the error, or the handler \<^verbatim>\<open>hd\<close> as the setters leave it.\<close>

definition setWebHook :: "(string \<Rightarrow> int option) \<Rightarrow> webHook \<Rightarrow> Node \<Rightarrow> int
    \<Rightarrow> parse_error + webHook" where
  "setWebHook ParseDuration hdl node tmo =
     (case parseWebHook ParseDuration node of
        Inl err \<Rightarrow> Inl err
      | Inr hook \<Rightarrow>
          (let hook' = (if timeout hook < 0 * Second then hook\<lparr>timeout := tmo\<rparr> else hook);
               hd1 = SetTimeout hdl (timeout hook');
               hd2 = SetURL hd1 (url hook')
           in Inr (if defaultValue hook' = ''allow'' then SetDefault hd2 200
                   else SetDefault hd2 404)))"

text \<open>
  \<^verbatim>\<open>parsePushHandler\<close>, and with the same body \<^verbatim>\<open>parseMessageHandler\<close>, \<^verbatim>\<open>parseLoginHandler\<close>,
  \<^verbatim>\<open>parseLogoutHandler\<close>, \<^verbatim>\<open>parseErrorHandler\<close>, \<^verbatim>\<open>parseSubscribeHandler\<close> and
  \<^verbatim>\<open>parseUnsubscribeHandler\<close>: a new handler, set from the node.
\<close>

definition parsePushHandler :: "(string \<Rightarrow> int option) \<Rightarrow> Node \<Rightarrow> int \<Rightarrow> parse_error + webHook" where
  "parsePushHandler ParseDuration node tmo = setWebHook ParseDuration newWebHook node tmo"

text \<open>
  The part of \<^verbatim>\<open>parseService\<close> that decides a hook's timeout: the service's timeout is
  3 seconds unless the service has a timeout field, and each hook field is parsed with it.
  \<open>parseServiceHook ParseDuration flds hook\<close>, for the fields \<open>flds\<close> of the service, is
  \<open>None\<close> when the service has no field \<open>hook\<close>.
\<close>

definition parseServiceTimeout :: "(string \<Rightarrow> int option) \<Rightarrow> (string \<times> Node) list
    \<Rightarrow> parse_error + int" where
  "parseServiceTimeout ParseDuration flds =
     (case map_of flds ''timeout'' of
        None \<Rightarrow> Inr (3 * Second)
      | Some t \<Rightarrow>
          (case parseDuration ParseDuration t of
             Inl e \<Rightarrow> Inl (ServiceTimeoutError e)
           | Inr d \<Rightarrow> Inr d))"

definition parseServiceHook :: "(string \<Rightarrow> int option) \<Rightarrow> (string \<times> Node) list \<Rightarrow> string
    \<Rightarrow> (parse_error + webHook) option" where
  "parseServiceHook ParseDuration flds hook =
     (case parseServiceTimeout ParseDuration flds of
        Inl e \<Rightarrow> Some (Inl e)
      | Inr tmo \<Rightarrow>
          (case map_of flds hook of
             None \<Rightarrow> None
           | Some v \<Rightarrow> Some (parsePushHandler ParseDuration v tmo)))"

section \<open>Vocabulary of the properties\<close>

text \<open>A header key that \<^verbatim>\<open>getPushInfo\<close> copies: prefixed \<^verbatim>\<open>notif.\<close> but not \<^verbatim>\<open>notif.uniqush.\<close>\<close>

definition copyable :: "string \<Rightarrow> bool" where
  "copyable k = (HasPrefix k ''notif.'' \<and> \<not> HasPrefix k ''notif.uniqush.'')"

text \<open>The visible connections that took the message without error.\<close>

definition reached :: "(conn \<Rightarrow> string option) \<Rightarrow> conn list \<Rightarrow> nat" where
  "reached SendMessage conns = length (filter (\<lambda>c. Visible c \<and> SendMessage c = None) conns)"

fun isPushFallbackTask :: "task \<Rightarrow> bool" where
  "isPushFallbackTask (PushFallbackTask _ _ _ _ _ _) = True"
| "isPushFallbackTask _ = False"

text \<open>
  In the calls of a push-fallback task: the cache calls that failed, the calls of
  \<^verbatim>\<open>Push\<close>, the errors \<^verbatim>\<open>Push\<close> returned and the errors handed to the error hook.
\<close>

fun isCacheError :: "effect \<Rightarrow> bool" where
  "isCacheError (CacheMessageCall _ (Some _)) = True"
| "isCacheError _ = False"

fun isPushCall :: "effect \<Rightarrow> bool" where
  "isPushCall (PushCall _ _) = True"
| "isPushCall _ = False"

fun pushError :: "effect \<Rightarrow> string list" where
  "pushError (PushCall _ (Some e)) = [e]"
| "pushError _ = []"

fun hookError :: "effect \<Rightarrow> string list" where
  "hookError (OnErrorCall e) = [e]"
| "hookError _ = []"

definition pushErrors :: "effect list \<Rightarrow> string list" where
  "pushErrors tr = concat (map pushError tr)"

definition hookErrors :: "effect list \<Rightarrow> string list" where
  "hookErrors tr = concat (map hookError tr)"

text \<open>The connections and messages of the examples.\<close>

abbreviation (input) u1a :: conn where
  "u1a \<equiv> \<lparr>Username = ''u1'', UniqId = ''a'', Visible = True\<rparr>"

abbreviation (input) u1b :: conn where
  "u1b \<equiv> \<lparr>Username = ''u1'', UniqId = ''b'', Visible = True\<rparr>"

abbreviation (input) u1c :: conn where
  "u1c \<equiv> \<lparr>Username = ''u1'', UniqId = ''c'', Visible = True\<rparr>"

abbreviation (input) u2a :: conn where
  "u2a \<equiv> \<lparr>Username = ''u2'', UniqId = ''a'', Visible = True\<rparr>"

abbreviation (input) u3a :: conn where
  "u3a \<equiv> \<lparr>Username = ''u3'', UniqId = ''a'', Visible = True\<rparr>"

abbreviation (input) t_full_user :: LLRB where
  "t_full_user \<equiv> [\<lparr>name = [], list = [u1a, u1b]\<rparr>]"

abbreviation (input) t_two_users :: LLRB where
  "t_two_users \<equiv> [\<lparr>name = [], list = [u1a]\<rparr>, \<lparr>name = [], list = [u2a]\<rparr>]"

abbreviation (input) m_plain :: message where
  "m_plain \<equiv> \<lparr>Sender = [], SenderService = [], Header = []\<rparr>"

abbreviation (input) m_notif :: message where
  "m_notif \<equiv> \<lparr>Sender = ''alice'', SenderService = ''chat'',
      Header = [(''notif.sound'', ''ding''), (''notif.uniqush.x'', ''y''), (''title'', ''hello'')]\<rparr>"

abbreviation (input) wreq_u1 :: writeMessageRequest where
  "wreq_u1 \<equiv> \<lparr>user = ''u1'', msg = m_plain, ttl = 0, extra = None, resChan = True\<rparr>"

text \<open>Two size functions: a constant one and one that counts the headers.\<close>

definition size_42 :: "message \<Rightarrow> int" where
  "size_42 m = 42"

definition size_headers :: "message \<Rightarrow> int" where
  "size_headers m = int (length (Header m))"

text \<open>Connections that all take a message, and that all fail.\<close>

definition send_ok :: "conn \<Rightarrow> string option" where
  "send_ok c = None"

definition send_broken :: "conn \<Rightarrow> string option" where
  "send_broken c = Some ''broken pipe''"

text \<open>
  A push hook that says yes, push services that work and that fail, and caches: one that
  works, one whose first call fails, one whose second call fails.
\<close>

definition push_yes :: "(string \<rightharpoonup> string) \<Rightarrow> bool" where
  "push_yes info = True"

definition push_ok :: "(string \<rightharpoonup> string) \<Rightarrow> string list \<Rightarrow> string option" where
  "push_ok info ids = None"

definition push_down :: "(string \<rightharpoonup> string) \<Rightarrow> string list \<Rightarrow> string option" where
  "push_down info ids = Some ''push down''"

definition cache_ok :: "nat \<Rightarrow> string \<times> string option" where
  "cache_ok i = (''id'', None)"

definition cache_first_fails :: "nat \<Rightarrow> string \<times> string option" where
  "cache_first_fails i = (if i = 0 then ([], Some ''cache down'') else (''id'', None))"

definition cache_second_fails :: "nat \<Rightarrow> string \<times> string option" where
  "cache_second_fails i = (if i = 0 then (''id'', None) else ([], Some ''cache down''))"

abbreviation (input) cfg_cache_down :: ServiceConfig where
  "cfg_cache_down \<equiv>
     \<lparr>MsgCache = Some cache_second_fails, ErrorHandler = True, PushHandler = Some push_yes,
      PushService = Some \<lparr>NrDeliveryPoints = 2, Push = push_ok\<rparr>\<rparr>"

abbreviation (input) cfg_cache_fails :: ServiceConfig where
  "cfg_cache_fails \<equiv>
     \<lparr>MsgCache = Some cache_first_fails, ErrorHandler = True, PushHandler = Some push_yes,
      PushService = Some \<lparr>NrDeliveryPoints = 1, Push = push_down\<rparr>\<rparr>"

abbreviation (input) cfg_push_down :: ServiceConfig where
  "cfg_push_down \<equiv>
     \<lparr>MsgCache = Some cache_ok, ErrorHandler = True, PushHandler = Some push_yes,
      PushService = Some \<lparr>NrDeliveryPoints = 1, Push = push_down\<rparr>\<rparr>"

text \<open>A \<^verbatim>\<open>time.ParseDuration\<close> that refuses every string (the examples never call it).\<close>

definition no_duration :: "string \<Rightarrow> int option" where
  "no_duration s = None"

section \<open>The registry\<close>

lemma Less_neither: "(\<not> Less x k \<and> \<not> Less k x) = (key x = key k)"
  by (auto simp: Less_def)

lemma Get_ReplaceOrInsert:
  "Get (ReplaceOrInsert t it) k = (if key k = key it then Some it else Get t k)"
  by (induction t) (auto simp: Less_neither)

lemma length_ReplaceOrInsert:
  "length (ReplaceOrInsert t it) = (if Get t it = None then Suc (length t) else length t)"
  by (induction t) (auto simp: Less_neither)

lemma Get_key: "Get t k = Some x \<Longrightarrow> key x = key k"
  by (induction t) (auto simp: Less_neither split: if_splits)

lemma GetConn_key: "GetConn t u = Some cl \<Longrightarrow> cl \<noteq> [] \<Longrightarrow> connKey (hd cl) = u"
  unfolding GetConn_def
  by (auto split: option.splits dest!: Get_key simp: key_def split: list.splits)

lemma GetConn_ReplaceOrInsert:
  "GetConn (ReplaceOrInsert tree it) u = (if key it = u then Some (list it) else GetConn tree u)"
  by (simp add: GetConn_def Get_ReplaceOrInsert key_def)

lemma GetConn_Some_Get: "GetConn tree u = Some cl \<Longrightarrow> key it = u \<Longrightarrow> Get tree it \<noteq> None"
  unfolding GetConn_def
  by (induction tree) (auto simp: Less_neither key_def split: option.splits if_splits)

text \<open>The item \<^verbatim>\<open>AddConn\<close> inserts is stored under the user of the new connection.\<close>

lemma key_appended:
  assumes "GetConn tree (connKey c) = Some cl \<or> cl = []"
  shows "key \<lparr>name = [], list = cl @ [c]\<rparr> = connKey c"
proof (cases cl)
  case Nil
  then show ?thesis by (simp add: key_def)
next
  case (Cons x xs)
  with assms have "GetConn tree (connKey c) = Some cl" by simp
  with Cons have "connKey (hd cl) = connKey c" by (intro GetConn_key) simp_all
  with Cons show ?thesis by (simp add: key_def)
qed

text \<open>The ways \<^verbatim>\<open>AddConn\<close> returns a nil error for a connection.\<close>

lemma AddConn_success:
  assumes "AddConn tree (Some c) mpu mu = (tree', None)"
  obtains cl where
    "GetConn tree (connKey c) = Some cl
      \<or> GetConn tree (connKey c) = None \<and> cl = [] \<and> \<not> (0 < mu \<and> mu \<le> Len tree)"
    "\<not> (0 < mpu \<and> mpu \<le> int (length cl))"
    "has_uniqId (UniqId c) cl \<and> tree' = tree
      \<or> \<not> has_uniqId (UniqId c) cl \<and> tree' = ReplaceOrInsert tree \<lparr>name = [], list = cl @ [c]\<rparr>"
  using assms
  by (cases "GetConn tree (connKey c)") (auto simp: AddConn_def Let_def split: if_splits)

lemma AddConn_entry_bound:
  assumes "AddConn tree (Some c) mpu mu = (tree', None)" and "0 < mpu"
    and "GetConn tree' (connKey c) = Some cl'"
  shows "int (length cl') \<le> mpu"
proof -
  from assms(1) obtain cl where
    found: "GetConn tree (connKey c) = Some cl
      \<or> GetConn tree (connKey c) = None \<and> cl = [] \<and> \<not> (0 < mu \<and> mu \<le> Len tree)"
    and room: "\<not> (0 < mpu \<and> mpu \<le> int (length cl))"
    and res: "has_uniqId (UniqId c) cl \<and> tree' = tree
      \<or> \<not> has_uniqId (UniqId c) cl \<and> tree' = ReplaceOrInsert tree \<lparr>name = [], list = cl @ [c]\<rparr>"
    by (rule AddConn_success)
  from room assms(2) have less: "int (length cl) < mpu" by simp
  from res show ?thesis
  proof
    assume "has_uniqId (UniqId c) cl \<and> tree' = tree"
    with found assms(3) less show ?thesis by auto
  next
    assume ins: "\<not> has_uniqId (UniqId c) cl
      \<and> tree' = ReplaceOrInsert tree \<lparr>name = [], list = cl @ [c]\<rparr>"
    from found have "key \<lparr>name = [], list = cl @ [c]\<rparr> = connKey c"
      by (intro key_appended) auto
    with ins assms(3) have "cl' = cl @ [c]" by (simp add: GetConn_ReplaceOrInsert)
    with less show ?thesis by simp
  qed
qed

lemma AddConn_users_bound:
  assumes "AddConn tree (Some c) mpu mu = (tree', None)" and "0 < mu"
  shows "Len tree' \<le> max mu (Len tree)"
proof -
  from assms(1) obtain cl where
    found: "GetConn tree (connKey c) = Some cl
      \<or> GetConn tree (connKey c) = None \<and> cl = [] \<and> \<not> (0 < mu \<and> mu \<le> Len tree)"
    and res: "has_uniqId (UniqId c) cl \<and> tree' = tree
      \<or> \<not> has_uniqId (UniqId c) cl \<and> tree' = ReplaceOrInsert tree \<lparr>name = [], list = cl @ [c]\<rparr>"
    by (rule AddConn_success)
  from res show ?thesis
  proof
    assume "has_uniqId (UniqId c) cl \<and> tree' = tree"
    then show ?thesis by simp
  next
    assume ins: "\<not> has_uniqId (UniqId c) cl
      \<and> tree' = ReplaceOrInsert tree \<lparr>name = [], list = cl @ [c]\<rparr>"
    from found have k: "key \<lparr>name = [], list = cl @ [c]\<rparr> = connKey c"
      by (intro key_appended) auto
    from found show ?thesis
    proof
      assume "GetConn tree (connKey c) = Some cl"
      with k have "Get tree \<lparr>name = [], list = cl @ [c]\<rparr> \<noteq> None"
        by (intro GetConn_Some_Get)
      with ins show ?thesis by (auto simp add: Len_def length_ReplaceOrInsert)
    next
      assume "GetConn tree (connKey c) = None \<and> cl = [] \<and> \<not> (0 < mu \<and> mu \<le> Len tree)"
      with assms(2) ins show ?thesis by (simp add: Len_def length_ReplaceOrInsert)
    qed
  qed
qed

text \<open>
  When nothing matches, the scan of \<^verbatim>\<open>DelConn\<close> ends with \<open>i\<close> at the last index, so
  for a user with an entry \<^verbatim>\<open>DelConn\<close> returns true for every connection that is not in it.
\<close>

lemma range_scan_no_match:
  "\<not> has_uniqId uid cl \<Longrightarrow>
     range_scan uid cl k i = (if cl = [] then i else int (k + length cl) - 1)"
  by (induction cl arbitrary: k i) (auto split: if_splits)

lemma Delete_found: "Get t k = Some x \<Longrightarrow> key k' = key k \<Longrightarrow> snd (Delete t k') \<noteq> None"
  by (induction t) (auto simp: Less_neither split: if_splits prod.splits)

lemma DelConn_non_member:
  assumes g: "GetConn tree (connKey c) = Some cl" and ne: "cl \<noteq> []"
    and nm: "\<not> has_uniqId (UniqId c) cl"
  shows "snd (DelConn tree (Some c))"
proof -
  from nm ne have i: "range_scan (UniqId c) cl 0 (- 1) = int (length cl) - 1"
    by (simp add: range_scan_no_match)
  with ne have i0: "\<not> range_scan (UniqId c) cl 0 (- 1) < 0" by (cases cl) simp_all
  show ?thesis
  proof (cases "length cl = 1")
    case True
    from g obtain x where x: "Get tree \<lparr>name = connKey c, list = []\<rparr> = Some x" "list x = cl"
      by (auto simp: GetConn_def split: option.splits)
    from ne have "key \<lparr>name = connKey c, list = cl\<rparr> = key x"
      using x(2) by (cases cl) (simp_all add: key_def)
    also from x(1) have "key x = key \<lparr>name = connKey c, list = []\<rparr>" by (rule Get_key)
    finally have "snd (Delete tree \<lparr>name = connKey c, list = cl\<rparr>) \<noteq> None"
      using x(1) by (intro Delete_found)
    with g i0 True show ?thesis
      by (auto simp: DelConn_def Let_def split: prod.splits option.splits)
  next
    case False
    with g i0 show ?thesis
      by (simp add: DelConn_def Let_def)
  qed
qed

text \<open>
  C1. The claim: for a non-nil connection whose id is not among the connections stored
  under its user, \<^verbatim>\<open>DelConn\<close> returns false and leaves the registry unchanged, also when
  the user has an entry holding other connections. The code does otherwise as soon as the
  user has an entry: the scan leaves \<open>i\<close> at the last index, the guard \<^verbatim>\<open>i < 0\<close> does not
  fire, the last connection of the entry is removed and \<^verbatim>\<open>DelConn\<close> returns true. With
  \<open>u1\<close> holding only \<open>a\<close>, deleting \<open>(u1, b)\<close> drops the entry; with \<open>u1\<close> holding \<open>a\<close> and
  \<open>b\<close>, deleting \<open>(u1, c)\<close> removes \<open>b\<close>.
\<close>

theorem DelConn_non_member_deletes:
  "\<not> has_uniqId (UniqId u1b) [u1a]
   \<and> DelConn [\<lparr>name = [], list = [u1a]\<rparr>] (Some u1b) = ([], True)
   \<and> \<not> has_uniqId (UniqId u1c) [u1a, u1b]
   \<and> DelConn t_full_user (Some u1c) = ([\<lparr>name = ''u1'', list = [u1a]\<rparr>], True)"
  by (simp add: DelConn_def GetConn_def Less_def key_def connKey_def)

text \<open>
  C3, as the claim states it: a connection whose id matches a member of its user's entry
  is added with success and without change, for all caps, also when the entry is at the
  per-user cap. At the cap the code answers \<^verbatim>\<open>ErrTooManyConnForThisUser\<close>: the cap is
  checked before the duplicate scan. Here \<open>u1\<close> holds \<open>a\<close>, the per-user cap is 1 and
  \<open>(u1, a)\<close> is added again.
\<close>

theorem AddConn_duplicate_at_capacity:
  "GetConn [\<lparr>name = [], list = [u1a]\<rparr>] (Username u1a) = Some [u1a]
   \<and> has_uniqId (UniqId u1a) [u1a]
   \<and> AddConn [\<lparr>name = [], list = [u1a]\<rparr>] (Some u1a) 1 0
       = ([\<lparr>name = [], list = [u1a]\<rparr>], Some ErrTooManyConnForThisUser)"
  by (simp add: AddConn_def GetConn_def Less_def key_def connKey_def)

text \<open>
  C3, amended: when a member of the entry for the connection's user has the connection's
  id, \<^verbatim>\<open>AddConn\<close> leaves the registry unchanged for all caps; it returns success unless
  the per-user cap is positive and the entry has reached it, in which case it returns
  \<^verbatim>\<open>ErrTooManyConnForThisUser\<close>.
\<close>

theorem AddConn_duplicate:
  "GetConn tree (connKey c) = Some cl \<Longrightarrow> has_uniqId (UniqId c) cl \<Longrightarrow>
   AddConn tree (Some c) maxNrConnsPerUser maxNrUsers =
     (tree, if 0 < maxNrConnsPerUser \<and> maxNrConnsPerUser \<le> int (length cl)
            then Some ErrTooManyConnForThisUser else None)"
  by (simp add: AddConn_def)

theorem AddConn_duplicate_witness:
  "GetConn t_full_user (connKey u1b) = Some [u1a, u1b]
   \<and> has_uniqId (UniqId u1b) [u1a, u1b]
   \<and> AddConn t_full_user (Some u1b) 3 2 = (t_full_user, None)"
proof -
  have g: "GetConn t_full_user (connKey u1b) = Some [u1a, u1b]"
    by (simp add: GetConn_def Less_def key_def connKey_def)
  have h: "has_uniqId (UniqId u1b) [u1a, u1b]" by simp
  from AddConn_duplicate [OF g h, of 3 2] g h show ?thesis by simp
qed

text \<open>
  C4. Capacity is never exceeded. \<^verbatim>\<open>AddConn\<close> fails with \<^verbatim>\<open>ErrTooManyConnForThisUser\<close>,
  changing nothing, when the per-user cap is positive and the user's entry has reached
  it, and with \<^verbatim>\<open>ErrTooManyUsers\<close> when the user cap is positive, the user has no entry
  and the registry has reached the cap. Whenever \<^verbatim>\<open>AddConn\<close> succeeds, the entry of the
  connection's user is within a positive per-user cap, and the number of entries is within
  a positive user cap unless it already was beyond it and did not grow. A join event that
  finds \<^verbatim>\<open>nrConns\<close> at or beyond a positive \<^verbatim>\<open>maxNrConns\<close> is answered \<^verbatim>\<open>ErrTooManyConns\<close>
  and changes nothing.
\<close>

theorem capacity_enforced:
  "(0 < maxNrConnsPerUser \<and> GetConn tree (connKey c) = Some cl
      \<and> maxNrConnsPerUser \<le> int (length cl)
     \<longrightarrow> AddConn tree (Some c) maxNrConnsPerUser maxNrUsers
           = (tree, Some ErrTooManyConnForThisUser))
   \<and> (0 < maxNrUsers \<and> GetConn tree (connKey c) = None \<and> maxNrUsers \<le> Len tree
     \<longrightarrow> AddConn tree (Some c) maxNrConnsPerUser maxNrUsers = (tree, Some ErrTooManyUsers))
   \<and> (AddConn tree (Some c) maxNrConnsPerUser maxNrUsers = (tree', None)
     \<longrightarrow> (0 < maxNrConnsPerUser \<and> GetConn tree' (connKey c) = Some cl'
            \<longrightarrow> int (length cl') \<le> maxNrConnsPerUser)
         \<and> (0 < maxNrUsers \<longrightarrow> Len tree' \<le> max maxNrUsers (Len tree)))
   \<and> (0 < maxNrConns \<and> maxNrConns \<le> nrConns s
     \<longrightarrow> connIn maxNrConns maxNrConnsPerUser maxNrUsers s errChan co
           = (s, reply errChan (Some ErrTooManyConns)))"
proof (intro conjI impI)
  assume "0 < maxNrConnsPerUser \<and> GetConn tree (connKey c) = Some cl
      \<and> maxNrConnsPerUser \<le> int (length cl)"
  then show "AddConn tree (Some c) maxNrConnsPerUser maxNrUsers
           = (tree, Some ErrTooManyConnForThisUser)"
    by (simp add: AddConn_def)
next
  assume "0 < maxNrUsers \<and> GetConn tree (connKey c) = None \<and> maxNrUsers \<le> Len tree"
  then show "AddConn tree (Some c) maxNrConnsPerUser maxNrUsers = (tree, Some ErrTooManyUsers)"
    by (simp add: AddConn_def)
next
  assume "AddConn tree (Some c) maxNrConnsPerUser maxNrUsers = (tree', None)"
    and "0 < maxNrConnsPerUser \<and> GetConn tree' (connKey c) = Some cl'"
  then show "int (length cl') \<le> maxNrConnsPerUser"
    using AddConn_entry_bound by blast
next
  assume "AddConn tree (Some c) maxNrConnsPerUser maxNrUsers = (tree', None)"
    and "0 < maxNrUsers"
  then show "Len tree' \<le> max maxNrUsers (Len tree)"
    by (rule AddConn_users_bound)
next
  assume "0 < maxNrConns \<and> maxNrConns \<le> nrConns s"
  then show "connIn maxNrConns maxNrConnsPerUser maxNrUsers s errChan co
           = (s, reply errChan (Some ErrTooManyConns))"
    by (simp add: connIn_def)
qed

theorem capacity_enforced_witness:
  "(0 < (2::int) \<and> GetConn t_full_user (connKey u1c) = Some [u1a, u1b]
      \<and> 2 \<le> int (length [u1a, u1b])
    \<and> AddConn t_full_user (Some u1c) 2 2 = (t_full_user, Some ErrTooManyConnForThisUser))
   \<and> (0 < (2::int) \<and> GetConn t_two_users (connKey u3a) = None \<and> 2 \<le> Len t_two_users
    \<and> AddConn t_two_users (Some u3a) 2 2 = (t_two_users, Some ErrTooManyUsers))
   \<and> (AddConn [\<lparr>name = [], list = [u1a]\<rparr>] (Some u1b) 2 2 = (t_full_user, None)
    \<and> 0 < (2::int) \<and> GetConn t_full_user (connKey u1b) = Some [u1a, u1b]
    \<and> int (length [u1a, u1b]) \<le> 2
    \<and> Len t_full_user \<le> max 2 (Len [\<lparr>name = [], list = [u1a]\<rparr>]))
   \<and> (0 < (3::int) \<and> 3 \<le> nrConns \<lparr>connMap = t_two_users, nrConns = 3\<rparr>
    \<and> connIn 3 2 2 \<lparr>connMap = t_two_users, nrConns = 3\<rparr> True (Some u3a)
        = (\<lparr>connMap = t_two_users, nrConns = 3\<rparr>, [Some ErrTooManyConns]))"
proof -
  have h1: "0 < (2::int) \<and> GetConn t_full_user (connKey u1c) = Some [u1a, u1b]
      \<and> 2 \<le> int (length [u1a, u1b])"
    by (simp add: GetConn_def Less_def key_def connKey_def)
  have h2: "0 < (2::int) \<and> GetConn t_two_users (connKey u3a) = None \<and> 2 \<le> Len t_two_users"
    by (simp add: GetConn_def Less_def key_def connKey_def Len_def)
  have h3: "AddConn [\<lparr>name = [], list = [u1a]\<rparr>] (Some u1b) 2 2 = (t_full_user, None)"
    by (simp add: AddConn_def GetConn_def Less_def key_def connKey_def Len_def)
  have h3': "0 < (2::int) \<and> GetConn t_full_user (connKey u1b) = Some [u1a, u1b]"
    by (simp add: GetConn_def Less_def key_def connKey_def)
  have h4: "0 < (3::int) \<and> 3 \<le> nrConns \<lparr>connMap = t_two_users, nrConns = 3\<rparr>"
    by simp
  from capacity_enforced [of 2 t_full_user u1c "[u1a, u1b]" 2] h1
  have r1: "AddConn t_full_user (Some u1c) 2 2 = (t_full_user, Some ErrTooManyConnForThisUser)"
    by blast
  from capacity_enforced [of 2 t_two_users u3a _ 2] h2
  have r2: "AddConn t_two_users (Some u3a) 2 2 = (t_two_users, Some ErrTooManyUsers)"
    by blast
  from capacity_enforced
    [of 2 "[\<lparr>name = [], list = [u1a]\<rparr>]" u1b _ 2 t_full_user "[u1a, u1b]"] h3 h3'
  have r3: "int (length [u1a, u1b]) \<le> 2
      \<and> Len t_full_user \<le> max 2 (Len [\<lparr>name = [], list = [u1a]\<rparr>])"
    by blast
  from capacity_enforced
    [of 2 _ _ _ 2 _ _ 3 "\<lparr>connMap = t_two_users, nrConns = 3\<rparr>" True "Some u3a"] h4
  have r4: "connIn 3 2 2 \<lparr>connMap = t_two_users, nrConns = 3\<rparr> True (Some u3a)
        = (\<lparr>connMap = t_two_users, nrConns = 3\<rparr>, reply True (Some ErrTooManyConns))"
    by blast
  from h1 h2 h3 h3' h4 r1 r2 r3 r4 show ?thesis
    by (simp add: reply_def)
qed

text \<open>
  C10. For every registry and all caps, \<^verbatim>\<open>AddConn\<close> with a nil connection returns a nil
  error and leaves the registry unchanged; so a join event that carries a nil connection
  and passes the check of \<^verbatim>\<open>maxNrConns\<close> is answered with success and increments
  \<^verbatim>\<open>nrConns\<close>, the registry staying as it was.
\<close>

theorem nil_join_admitted:
  "AddConn tree None maxNrConnsPerUser maxNrUsers = (tree, None)
   \<and> (\<not> (0 < maxNrConns \<and> maxNrConns \<le> nrConns s)
     \<longrightarrow> connIn maxNrConns maxNrConnsPerUser maxNrUsers s errChan None
           = (s\<lparr>nrConns := nrConns s + 1\<rparr>, reply errChan None))"
  by (auto simp add: connIn_def AddConn_def)

theorem nil_join_admitted_witness:
  "\<not> (0 < (3::int) \<and> 3 \<le> nrConns \<lparr>connMap = t_two_users, nrConns = 2\<rparr>)
   \<and> connIn 3 2 2 \<lparr>connMap = t_two_users, nrConns = 2\<rparr> True None
        = (\<lparr>connMap = t_two_users, nrConns = 3\<rparr>, [None])
   \<and> sumEntryLengths t_two_users = 2"
proof -
  have h: "\<not> (0 < (3::int) \<and> 3 \<le> nrConns \<lparr>connMap = t_two_users, nrConns = 2\<rparr>)"
    by simp
  from nil_join_admitted [of t_two_users 2 2 3 "\<lparr>connMap = t_two_users, nrConns = 2\<rparr>" True] h
  have "connIn 3 2 2 \<lparr>connMap = t_two_users, nrConns = 2\<rparr> True None
        = (\<lparr>connMap = t_two_users, nrConns = 2\<rparr>
             \<lparr>nrConns := nrConns \<lparr>connMap = t_two_users, nrConns = 2\<rparr> + 1\<rparr>,
           reply True None)"
    by blast
  then show ?thesis by (simp add: reply_def sumEntryLengths_def)
qed

section \<open>The event loop\<close>

text \<open>
  C2. The claim: after every sequence of join and leave events \<^verbatim>\<open>nrConns\<close> equals the sum
  of the lengths of the registry's entries; a join whose \<^verbatim>\<open>AddConn\<close> succeeds without
  inserting must not break this. The loop increments \<^verbatim>\<open>nrConns\<close> on every nil error of
  \<^verbatim>\<open>AddConn\<close>: with the caps of the spec's scenarios (3 connections, 2 per user, 2
  users), two joins of the connection \<open>(u1, a)\<close> leave one connection in the registry and
  \<^verbatim>\<open>nrConns\<close> at 2.
\<close>

theorem nrConns_desynchronized:
  "process 3 2 2 newCenter [EventConnIn True (Some u1a), EventConnIn True (Some u1a)]
     = Some \<lparr>connMap = [\<lparr>name = [], list = [u1a]\<rparr>], nrConns = 2\<rparr>
   \<and> sumEntryLengths [\<lparr>name = [], list = [u1a]\<rparr>] = 1"
  by (simp add: newCenter_def newTreeBasedConnMap_def connIn_def AddConn_def GetConn_def
      Less_def key_def connKey_def Len_def sumEntryLengths_def)

section \<open>Push information\<close>

lemma makeIfNil_simps: "makeIfNil None = Map.empty" "makeIfNil (Some e) = e"
  by (simp_all add: makeIfNil_def)

text \<open>What the range loop leaves in the header and in \<^verbatim>\<open>extra\<close>.\<close>

lemma copyNotif_header:
  "snd (copyNotif kvs (e, h))
     = filter (\<lambda>kv. \<not> (copyable (fst kv) \<and> fst kv \<in> fst ` set kvs)) h"
proof (induction kvs arbitrary: e h)
  case Nil
  then show ?case by simp
next
  case (Cons kv kvs)
  obtain k v where kv: "kv = (k, v)" by (cases kv)
  show ?case
    unfolding kv
    by (auto simp: Cons.IH copyable_def delete_key_def intro!: filter_cong)
qed

lemma copyNotif_extra:
  "distinct (map fst kvs) \<Longrightarrow>
   fst (copyNotif kvs (e, h)) k
     = (if copyable k \<and> k \<in> fst ` set kvs then map_of kvs k else e k)"
proof (induction kvs arbitrary: e h k)
  case Nil
  then show ?case by simp
next
  case (Cons kv kvs)
  obtain k' v' where kv: "kv = (k', v')" by (cases kv)
  from Cons.prems have d: "distinct (map fst kvs)" and nin: "k' \<notin> fst ` set kvs"
    by (auto simp: kv)
  show ?case
    unfolding kv using nin
    by (auto simp: Cons.IH [OF d] copyable_def)
qed

lemma copyNotif_none:
  "\<forall>kv \<in> set kvs. \<not> copyable (fst kv) \<Longrightarrow> copyNotif kvs (e, h) = (e, h)"
  by (induction kvs) (auto simp: copyable_def)

lemma map_of_filter_keep:
  "P k \<Longrightarrow> map_of (filter (\<lambda>kv. P (fst kv)) h) k = map_of h k"
  by (induction h) auto

lemma title_not_copyable: "\<not> copyable ''title''"
  by (simp add: copyable_def HasPrefix_def)

lemma reserved_not_copyable: "HasPrefix k ''notif.uniqush.'' \<Longrightarrow> \<not> copyable k"
  by (simp add: copyable_def)

lemma reserved_neq:
  "HasPrefix k ''notif.uniqush.'' \<Longrightarrow>
     k \<noteq> ''uniqush.sender'' \<and> k \<noteq> ''uniqush.sender-service'' \<and> k \<noteq> ''notif.msg''"
  by (auto simp: HasPrefix_def)

text \<open>\<^verbatim>\<open>getPushInfo\<close> with and without \<^verbatim>\<open>fwd\<close>, the loop resolved.\<close>

lemma getPushInfo_fwd:
  "getPushInfo Size m ex True =
     (let e1 = (fst (copyNotif (Header m) (makeIfNil ex, Header m)))
                 (''uniqush.sender'' \<mapsto> Sender m,
                  ''uniqush.sender-service'' \<mapsto> SenderService m);
          m1 = m\<lparr>Header := filter (\<lambda>kv. \<not> copyable (fst kv)) (Header m)\<rparr>;
          e2 = (case map_of (Header m) ''title'' of
                  None \<Rightarrow> e1
                | Some title \<Rightarrow>
                    if e1 ''notif.msg'' = None then e1(''notif.msg'' \<mapsto> title) else e1)
      in (e2(''notif.uniqush.msgsize'' \<mapsto> decimal (Size m1)), m1))"
proof -
  have h: "snd (copyNotif (Header m) (e, Header m))
      = filter (\<lambda>kv. \<not> copyable (fst kv)) (Header m)" for e
    by (simp add: copyNotif_header cong: filter_cong)
  have t: "map_of (filter (\<lambda>kv. \<not> copyable (fst kv)) (Header m)) ''title''
      = map_of (Header m) ''title''"
    by (rule map_of_filter_keep) (rule title_not_copyable)
  show ?thesis
    by (simp add: getPushInfo_def Let_def split_beta h t cong: option.case_cong if_cong)
qed

lemma getPushInfo_nofwd:
  "getPushInfo Size m ex False =
     (let e2 = (case map_of (Header m) ''title'' of
                  None \<Rightarrow> makeIfNil ex
                | Some title \<Rightarrow>
                    if makeIfNil ex ''notif.msg'' = None
                    then (makeIfNil ex)(''notif.msg'' \<mapsto> title) else makeIfNil ex)
      in (e2(''notif.uniqush.msgsize'' \<mapsto> decimal (Size m)), m))"
  by (simp add: getPushInfo_def Let_def)

lemma getPushInfo_twice_nofwd:
  "getPushInfo Size (snd (getPushInfo Size m ex False))
      (Some (fst (getPushInfo Size m ex False))) False
     = getPushInfo Size m ex False"
  by (auto simp: getPushInfo_nofwd Let_def makeIfNil_simps split: option.splits)

lemma getPushInfo_twice_fwd:
  "getPushInfo Size (snd (getPushInfo Size m ex True))
      (Some (fst (getPushInfo Size m ex True))) True
     = getPushInfo Size m ex True"
proof -
  let ?h = "filter (\<lambda>kv. \<not> copyable (fst kv)) (Header m)"
  have c: "copyNotif ?h (e, ?h) = (e, ?h)" for e
    by (rule copyNotif_none) simp
  have t: "map_of ?h ''title'' = map_of (Header m) ''title''"
    by (rule map_of_filter_keep) (rule title_not_copyable)
  define e1 where "e1 = (fst (copyNotif (Header m) (makeIfNil ex, Header m)))
      (''uniqush.sender'' \<mapsto> Sender m, ''uniqush.sender-service'' \<mapsto> SenderService m)"
  define e2 where "e2 = (case map_of (Header m) ''title'' of
      None \<Rightarrow> e1
    | Some title \<Rightarrow> if e1 ''notif.msg'' = None then e1(''notif.msg'' \<mapsto> title) else e1)"
  define sz where "sz = decimal (Size (m\<lparr>Header := ?h\<rparr>))"
  have first: "getPushInfo Size m ex True
      = (e2(''notif.uniqush.msgsize'' \<mapsto> sz), m\<lparr>Header := ?h\<rparr>)"
    unfolding e2_def e1_def sz_def by (simp add: getPushInfo_fwd Let_def)
  have s1: "e2(''uniqush.sender'' \<mapsto> Sender m,
      ''uniqush.sender-service'' \<mapsto> SenderService m) = e2"
    by (rule ext) (simp add: e2_def e1_def split: option.splits)
  have s2: "map_of (Header m) ''title'' = Some t \<Longrightarrow> e2 ''notif.msg'' \<noteq> None" for t
    by (simp add: e2_def)
  have second: "getPushInfo Size (m\<lparr>Header := ?h\<rparr>)
      (Some (e2(''notif.uniqush.msgsize'' \<mapsto> sz))) True
     = (e2(''notif.uniqush.msgsize'' \<mapsto> sz), m\<lparr>Header := ?h\<rparr>)"
    using s2
    by (auto simp add: getPushInfo_def Let_def makeIfNil_simps c t s1 sz_def split: option.splits)
  show ?thesis
    by (simp add: first second)
qed

text \<open>
  C6, as the claim states it: every header prefixed \<^verbatim>\<open>notif.\<close> but not
  \<^verbatim>\<open>notif.uniqush.\<close> is copied into the map returned. The loop that copies stands under
  \<^verbatim>\<open>if fwd\<close>: without \<^verbatim>\<open>fwd\<close> the header \<^verbatim>\<open>notif.sound\<close> of the message is not in the
  map returned.
\<close>

theorem getPushInfo_no_copy_without_fwd:
  "(''notif.sound'', ''ding'') \<in> set (Header m_notif) \<and> copyable ''notif.sound''
   \<and> fst (getPushInfo size_42 m_notif None False) ''notif.sound'' = None"
  by (simp add: getPushInfo_def Let_def makeIfNil_def copyable_def HasPrefix_def)

text \<open>
  C6, amended. For a header whose keys are distinct (a Go map) and every \<^verbatim>\<open>Size\<close>:
  when \<^verbatim>\<open>fwd\<close> is true, every header prefixed \<^verbatim>\<open>notif.\<close> but not \<^verbatim>\<open>notif.uniqush.\<close> is in the
  map returned, these headers and no others are deleted from the message, and
  \<^verbatim>\<open>uniqush.sender\<close> and \<^verbatim>\<open>uniqush.sender-service\<close> are the message's sender and sender
  service; when \<^verbatim>\<open>fwd\<close> is false the message is unchanged and, \<^verbatim>\<open>notif.msg\<close> and
  \<^verbatim>\<open>notif.uniqush.msgsize\<close> apart, the map is the one passed in. In both cases no key
  prefixed \<^verbatim>\<open>notif.uniqush.\<close> is copied from the message (but for the synthesized size, such
  a key keeps what the caller's map had); if the message has a \<^verbatim>\<open>title\<close> header and the
  map, after the copying, lacks \<^verbatim>\<open>notif.msg\<close>, then \<^verbatim>\<open>notif.msg\<close> is that title; and
  \<^verbatim>\<open>notif.uniqush.msgsize\<close> is the decimal size of the message as the call leaves it.
\<close>

theorem getPushInfo_amended:
  assumes d: "distinct (map fst (Header m))"
    and g: "getPushInfo Size m ex fwd = (info, m')"
  shows "(fwd \<longrightarrow>
            (\<forall>k v. (k, v) \<in> set (Header m) \<and> copyable k \<longrightarrow> info k = Some v)
          \<and> m' = m\<lparr>Header := filter (\<lambda>kv. \<not> copyable (fst kv)) (Header m)\<rparr>
          \<and> info ''uniqush.sender'' = Some (Sender m)
          \<and> info ''uniqush.sender-service'' = Some (SenderService m))
       \<and> (\<not> fwd \<longrightarrow>
            m' = m
          \<and> (\<forall>k. k \<noteq> ''notif.msg'' \<and> k \<noteq> ''notif.uniqush.msgsize''
                \<longrightarrow> info k = makeIfNil ex k))
       \<and> (\<forall>k. HasPrefix k ''notif.uniqush.'' \<and> k \<noteq> ''notif.uniqush.msgsize''
             \<longrightarrow> info k = makeIfNil ex k)
       \<and> (\<forall>t. map_of (Header m) ''title'' = Some t \<and> makeIfNil ex ''notif.msg'' = None
               \<and> \<not> (fwd \<and> ''notif.msg'' \<in> fst ` set (Header m))
             \<longrightarrow> info ''notif.msg'' = Some t)
       \<and> info ''notif.uniqush.msgsize'' = Some (decimal (Size m'))"
proof (cases fwd)
  case False
  with g show ?thesis
    by (auto simp: getPushInfo_nofwd Let_def dest: reserved_neq split: option.splits)
next
  case True
  let ?r = "getPushInfo Size m ex True"
  have ck: "fst (copyNotif (Header m) (e, Header m)) k
      = (if copyable k \<and> k \<in> fst ` set (Header m) then map_of (Header m) k else e k)" for k e
    by (rule copyNotif_extra [OF d])
  from g True have info: "info = fst ?r" and m': "m' = snd ?r" by simp_all
  have p1: "fst ?r k = Some v" if "(k, v) \<in> set (Header m)" "copyable k" for k v
  proof -
    from that d have c: "map_of (Header m) k = Some v" "k \<in> fst ` set (Header m)"
      by (auto intro: rev_image_eqI)
    from that have ne: "k \<noteq> ''uniqush.sender''" "k \<noteq> ''uniqush.sender-service''"
      "k \<noteq> ''notif.uniqush.msgsize''"
      by (auto simp: copyable_def HasPrefix_def)
    show ?thesis
    proof (cases "k = ''notif.msg''")
      case True
      with that(2) c show ?thesis
        by (simp add: getPushInfo_fwd Let_def ck split: option.splits)
    next
      case False
      with that(2) c ne show ?thesis
        by (simp add: getPushInfo_fwd Let_def ck split: option.splits)
    qed
  qed
  have p2: "fst ?r ''uniqush.sender'' = Some (Sender m)"
    "fst ?r ''uniqush.sender-service'' = Some (SenderService m)"
    "fst ?r ''notif.uniqush.msgsize'' = Some (decimal (Size (snd ?r)))"
    "snd ?r = m\<lparr>Header := filter (\<lambda>kv. \<not> copyable (fst kv)) (Header m)\<rparr>"
    by (simp_all add: getPushInfo_fwd Let_def split: option.splits)
  have p3: "fst ?r k = makeIfNil ex k"
    if "HasPrefix k ''notif.uniqush.''" "k \<noteq> ''notif.uniqush.msgsize''" for k
    using that reserved_neq [OF that(1)] reserved_not_copyable [OF that(1)]
    by (auto simp: getPushInfo_fwd Let_def ck split: option.splits)
  have p4: "fst ?r ''notif.msg'' = Some t"
    if "map_of (Header m) ''title'' = Some t" "makeIfNil ex ''notif.msg'' = None"
       "''notif.msg'' \<notin> fst ` set (Header m)" for t
    using that by (simp add: getPushInfo_fwd Let_def ck)
  from True p1 p2 p3 p4 show ?thesis unfolding info m' by blast
qed

theorem getPushInfo_amended_witness:
  "distinct (map fst (Header m_notif))
   \<and> (''notif.sound'', ''ding'') \<in> set (Header m_notif) \<and> copyable ''notif.sound''
   \<and> fst (getPushInfo size_42 m_notif None True) ''notif.sound'' = Some ''ding''
   \<and> snd (getPushInfo size_42 m_notif None True)
       = m_notif\<lparr>Header := [(''notif.uniqush.x'', ''y''), (''title'', ''hello'')]\<rparr>
   \<and> fst (getPushInfo size_42 m_notif None True) ''uniqush.sender'' = Some ''alice''
   \<and> fst (getPushInfo size_42 m_notif None True) ''uniqush.sender-service'' = Some ''chat''
   \<and> HasPrefix ''notif.uniqush.x'' ''notif.uniqush.''
   \<and> fst (getPushInfo size_42 m_notif None True) ''notif.uniqush.x'' = None
   \<and> map_of (Header m_notif) ''title'' = Some ''hello''
   \<and> fst (getPushInfo size_42 m_notif None True) ''notif.msg'' = Some ''hello''
   \<and> fst (getPushInfo size_42 m_notif None True) ''notif.uniqush.msgsize'' = Some ''42''"
proof -
  have d: "distinct (map fst (Header m_notif))" by simp
  have g: "getPushInfo size_42 m_notif None True
      = (fst (getPushInfo size_42 m_notif None True),
         snd (getPushInfo size_42 m_notif None True))"
    by simp
  have c: "copyable ''notif.sound''" "\<not> copyable ''notif.uniqush.x''" "\<not> copyable ''title''"
    "HasPrefix ''notif.uniqush.x'' ''notif.uniqush.''"
    by (simp_all add: copyable_def HasPrefix_def)
  have dec: "decimal 42 = ''42''" by code_simp
  from getPushInfo_amended [OF d g] c dec show ?thesis
    by (simp add: makeIfNil_def size_42_def)
qed

text \<open>
  C7. Push-info synthesis is idempotent: for every message, map and \<^verbatim>\<open>fwd\<close> flag (and
  every \<^verbatim>\<open>Size\<close>), calling \<^verbatim>\<open>getPushInfo\<close> again on the message as the first call left it
  and on the map the first call returned gives the same map (and leaves the message as
  it was after the first call).
\<close>

theorem getPushInfo_idempotent:
  "getPushInfo Size (snd (getPushInfo Size m ex fwd)) (Some (fst (getPushInfo Size m ex fwd))) fwd
     = getPushInfo Size m ex fwd"
  by (cases fwd) (simp_all only: getPushInfo_twice_fwd getPushInfo_twice_nofwd)

theorem getPushInfo_idempotent_witness:
  "fst (getPushInfo size_headers
          (snd (getPushInfo size_headers m_notif None True))
          (Some (fst (getPushInfo size_headers m_notif None True))) True)
     = fst (getPushInfo size_headers m_notif None True)
   \<and> fst (getPushInfo size_headers m_notif None True) ''notif.uniqush.msgsize''
     = Some ''2''"
proof -
  have dec: "decimal 2 = ''2''" by code_simp
  have "fst (getPushInfo size_headers m_notif None True) ''notif.uniqush.msgsize''
     = Some ''2''"
    by (simp add: getPushInfo_def Let_def makeIfNil_def HasPrefix_def delete_key_def
        size_headers_def dec)
  with getPushInfo_idempotent [of size_headers m_notif None True]
  show ?thesis by simp
qed

section \<open>The write event and the push fallback\<close>

lemma deliver_n:
  "fst (snd (snd (deliver config S cs (res, ec, n, st)))) = n + int (reached S cs)"
  by (induction cs arbitrary: res ec n st) (auto simp: reached_def split: option.splits)

lemma deliver_started:
  "filter isPushFallbackTask (snd (snd (snd (deliver config S cs (res, ec, n, st)))))
     = filter isPushFallbackTask st"
  by (induction cs arbitrary: res ec n st) (auto simp: reportErrorTask_def split: option.splits)

lemma deliver_res:
  "fst (deliver config S cs (res, ec, n, st)) = fst (deliver config' S cs (res, ec, n', st'))"
  by (induction cs arbitrary: res ec n st n' st') (auto split: option.splits)

text \<open>
  C5. For every write event: if no visible connection of the user took the message
  without error, exactly one push-fallback task is started; if at least one did, none is.
\<close>

theorem write_fallback_count:
  "length (filter isPushFallbackTask (snd (writeReq config serviceName SendMessage tree wreq)))
     = (if reached SendMessage (case GetConn tree (user wreq) of None \<Rightarrow> [] | Some l \<Rightarrow> l) = 0
        then 1 else 0)"
proof -
  define conns where "conns = (case GetConn tree (user wreq) of None \<Rightarrow> [] | Some l \<Rightarrow> l)"
  obtain res ec n st where d: "deliver config SendMessage conns ([], [], 0, []) = (res, ec, n, st)"
    by (cases "deliver config SendMessage conns ([], [], 0, [])") auto
  from deliver_n [of config SendMessage conns "[]" "[]" 0 "[]"] d
  have n: "n = int (reached SendMessage conns)" by simp
  from deliver_started [of config SendMessage conns "[]" "[]" 0 "[]"] d
  have st: "filter isPushFallbackTask st = []" by simp
  show ?thesis
    using n st d by (simp add: writeReq_def Let_def conns_def [symmetric])
qed

theorem write_fallback_count_witness:
  "reached send_ok [u1a, u1b] = 2
   \<and> length (filter isPushFallbackTask
        (snd (writeReq cfg_cache_down ''s'' send_ok t_full_user wreq_u1))) = 0
   \<and> reached send_broken [u1a, u1b] = 0
   \<and> length (filter isPushFallbackTask
        (snd (writeReq cfg_cache_down ''s'' send_broken t_full_user wreq_u1))) = 1"
proof -
  have g: "GetConn t_full_user (user wreq_u1) = Some [u1a, u1b]"
    by (simp add: GetConn_def Less_def key_def connKey_def)
  have r: "reached send_ok [u1a, u1b] = 2"
    "reached send_broken [u1a, u1b] = 0"
    by (simp_all add: reached_def send_ok_def send_broken_def)
  from write_fallback_count [of cfg_cache_down "''s''" send_ok t_full_user wreq_u1]
    write_fallback_count
      [of cfg_cache_down "''s''" send_broken t_full_user wreq_u1]
    g r
  show ?thesis by simp
qed

text \<open>The reply of a write event does not depend on the configuration.\<close>

lemma writeReq_reply:
  "fst (writeReq config serviceName SendMessage tree wreq)
     = fst (writeReq config' serviceName SendMessage tree wreq)"
proof -
  define conns where "conns = (case GetConn tree (user wreq) of None \<Rightarrow> [] | Some l \<Rightarrow> l)"
  obtain res ec n st where d: "deliver config SendMessage conns ([], [], 0, []) = (res, ec, n, st)"
    by (cases "deliver config SendMessage conns ([], [], 0, [])") auto
  obtain res' ec' n' st'
    where d': "deliver config' SendMessage conns ([], [], 0, []) = (res', ec', n', st')"
    by (cases "deliver config' SendMessage conns ([], [], 0, [])") auto
  from deliver_res [of config SendMessage conns "[]" "[]" 0 "[]" config' 0 "[]"] d d'
  have "res = res'" by simp
  with d d' show ?thesis
    by (simp add: writeReq_def Let_def conns_def [symmetric])
qed

lemma errors_append:
  "hookErrors (a @ b) = hookErrors a @ hookErrors b"
  "pushErrors (a @ b) = pushErrors a @ pushErrors b"
  by (simp_all add: hookErrors_def pushErrors_def)

text \<open>The cache loop calls neither \<^verbatim>\<open>Push\<close> nor the error hook, whatever its outcome.\<close>

lemma cacheLoop_trace:
  "cacheLoop config i n ids tr = (r, tr') \<Longrightarrow>
     pushErrors tr' = pushErrors tr \<and> hookErrors tr' = hookErrors tr
   \<and> filter isPushCall tr' = filter isPushCall tr
   \<and> (r \<noteq> None \<longrightarrow> filter isCacheError tr' = filter isCacheError tr)"
proof (induction config i n ids tr rule: cacheLoop.induct)
  case (1 config i n msgIds tr)
  show ?case
  proof (cases "i < n")
    case False
    with "1.prems" show ?thesis by (auto simp add: cacheLoop.simps)
  next
    case True
    obtain mid e where c: "cacheMessage config i = (mid, e)" by (cases "cacheMessage config i")
    show ?thesis
    proof (cases e)
      case None
      with True c "1.prems"
      have "cacheLoop config (Suc i) n (msgIds[i := mid]) (tr @ [CacheMessageCall i None])
          = (r, tr')"
        by (simp add: cacheLoop.simps [of config i])
      from "1.IH" [OF True c [symmetric] None this] show ?thesis
        by (simp add: pushErrors_def hookErrors_def)
    next
      case (Some err)
      with True c "1.prems" show ?thesis
        by (auto simp add: cacheLoop.simps [of config i] pushErrors_def hookErrors_def)
    qed
  qed
qed

lemma pushNotif_reports:
  "hookErrors (pushNotif config Size m ex ids fwd)
     = (if ErrorHandler config then pushErrors (pushNotif config Size m ex ids fwd) else [])
   \<and> filter isCacheError (pushNotif config Size m ex ids fwd) = []"
proof (cases "PushService config")
  case None
  then show ?thesis by (simp add: pushNotif_def hookErrors_def pushErrors_def)
next
  case (Some ps)
  obtain info m1 where g: "getPushInfo Size m ex fwd = (info, m1)"
    by (cases "getPushInfo Size m ex fwd")
  show ?thesis
    by (cases "Push ps info ids")
      (simp_all add: pushNotif_def Some g reportError_def hookErrors_def pushErrors_def)
qed

text \<open>
  The three ways a push-fallback task ends: before the cache loop, inside it, or after
  \<^verbatim>\<open>pushNotif\<close>.
\<close>

lemma pushFallback_cases:
  obtains
    (stopped) "pushFallback config Size m ex fwd = []
      \<or> (\<exists>b. pushFallback config Size m ex fwd = [ShouldPushCall b])"
  | (aborted) tr where "pushFallback config Size m ex fwd = tr"
      "pushErrors tr = []" "hookErrors tr = []" "filter isPushCall tr = []"
  | (pushed) tr m1 ex1 ids where
      "pushFallback config Size m ex fwd = tr @ pushNotif config Size m1 ex1 ids fwd"
      "pushErrors tr = []" "hookErrors tr = []" "filter isCacheError tr = []"
proof (cases "PushHandler config")
  case None
  then have "pushFallback config Size m ex fwd = []" by (simp add: pushFallback_def)
  then show ?thesis using stopped by blast
next
  case (Some ShouldPush)
  obtain info m1 where g: "getPushInfo Size m ex fwd = (info, m1)"
    by (cases "getPushInfo Size m ex fwd")
  define n where "n = nrDeliveryPoints config"
  show ?thesis
  proof (cases "ShouldPush info \<and> 0 < n")
    case False
    with Some g have "pushFallback config Size m ex fwd = [ShouldPushCall False]
        \<or> pushFallback config Size m ex fwd = [ShouldPushCall True]"
      by (auto simp: pushFallback_def Let_def n_def)
    then show ?thesis using stopped by blast
  next
    case True
    obtain r tr
      where c: "cacheLoop config 0 (nat n) (replicate (nat n) []) [ShouldPushCall True] = (r, tr)"
      by (cases "cacheLoop config 0 (nat n) (replicate (nat n) []) [ShouldPushCall True]")
    from cacheLoop_trace [OF c]
    have t: "pushErrors tr = []" "hookErrors tr = []" "filter isPushCall tr = []"
      "r \<noteq> None \<longrightarrow> filter isCacheError tr = []"
      by (simp_all add: hookErrors_def pushErrors_def)
    show ?thesis
    proof (cases r)
      case None
      with True Some g c have "pushFallback config Size m ex fwd = tr"
        by (simp add: pushFallback_def Let_def n_def [symmetric])
      with t show ?thesis using aborted by blast
    next
      case (Some ids)
      with True \<open>PushHandler config = Some ShouldPush\<close> g c
      have "pushFallback config Size m ex fwd
          = tr @ pushNotif config Size m1 (case ex of None \<Rightarrow> None | Some _ \<Rightarrow> Some info) ids fwd"
        by (simp add: pushFallback_def Let_def n_def [symmetric])
      with t Some show ?thesis using pushed by blast
    qed
  qed
qed

text \<open>
  C8, as the claim states it: a cache error in the fallback task is reported via the
  error hook. With an error hook configured and a cache whose second call fails, the task
  ends after that call and hands nothing to the error hook.
\<close>

theorem cache_error_not_reported:
  "ErrorHandler cfg_cache_down
   \<and> pushFallback cfg_cache_down size_42 m_plain None False
       = [ShouldPushCall True, CacheMessageCall 0 None, CacheMessageCall 1 (Some ''cache down'')]
   \<and> hookErrors [ShouldPushCall True, CacheMessageCall 0 None,
        CacheMessageCall 1 (Some ''cache down'')] = []"
  by (simp add: pushFallback_def getPushInfo_def Let_def makeIfNil_def nrDeliveryPoints_def
      cacheLoop.simps cacheMessage_def hookErrors_def push_yes_def cache_second_fails_def)

text \<open>
  C8, amended. If a \<^verbatim>\<open>cacheMessage\<close> call of the push-fallback task returns an error, the
  task calls neither \<^verbatim>\<open>Push\<close> nor the error hook: the cache error is dropped. The errors
  the task hands to the error hook are exactly the errors \<^verbatim>\<open>Push\<close> returned when an error
  hook is configured, and none otherwise. The reply of the write event is the same
  whatever the cache, the push service and the hooks are and do.
\<close>

theorem fallback_errors:
  "(filter isCacheError (pushFallback config Size m ex fwd) \<noteq> []
      \<longrightarrow> filter isPushCall (pushFallback config Size m ex fwd) = []
          \<and> hookErrors (pushFallback config Size m ex fwd) = [])
   \<and> hookErrors (pushFallback config Size m ex fwd)
       = (if ErrorHandler config then pushErrors (pushFallback config Size m ex fwd) else [])
   \<and> fst (writeReq config serviceName SendMessage tree wreq)
       = fst (writeReq config' serviceName SendMessage tree wreq)"
proof (intro conjI)
  show "filter isCacheError (pushFallback config Size m ex fwd) \<noteq> []
      \<longrightarrow> filter isPushCall (pushFallback config Size m ex fwd) = []
          \<and> hookErrors (pushFallback config Size m ex fwd) = []"
  proof (cases rule: pushFallback_cases [of config Size m ex fwd])
    case stopped
    then show ?thesis by (auto simp: hookErrors_def)
  next
    case (aborted tr)
    then show ?thesis by simp
  next
    case (pushed tr m1 ex1 ids)
    then show ?thesis using pushNotif_reports [of config Size m1 ex1 ids fwd]
      by (simp add: errors_append)
  qed
  show "hookErrors (pushFallback config Size m ex fwd)
       = (if ErrorHandler config then pushErrors (pushFallback config Size m ex fwd) else [])"
  proof (cases rule: pushFallback_cases [of config Size m ex fwd])
    case stopped
    then show ?thesis by (auto simp: hookErrors_def pushErrors_def)
  next
    case (aborted tr)
    then show ?thesis by simp
  next
    case (pushed tr m1 ex1 ids)
    then show ?thesis using pushNotif_reports [of config Size m1 ex1 ids fwd]
      by (simp add: errors_append)
  qed
  show "fst (writeReq config serviceName SendMessage tree wreq)
       = fst (writeReq config' serviceName SendMessage tree wreq)"
    by (rule writeReq_reply)
qed

theorem fallback_errors_witness:
  "filter isCacheError (pushFallback cfg_cache_fails size_42 m_plain None False)
      = [CacheMessageCall 0 (Some ''cache down'')]
   \<and> filter isPushCall (pushFallback cfg_cache_fails size_42 m_plain None False) = []
   \<and> hookErrors (pushFallback cfg_cache_fails size_42 m_plain None False) = []
   \<and> ErrorHandler cfg_push_down
   \<and> pushErrors (pushFallback cfg_push_down size_42 m_plain None False) = [''push down'']
   \<and> hookErrors (pushFallback cfg_push_down size_42 m_plain None False) = [''push down'']"
proof -
  have h: "filter isCacheError (pushFallback cfg_cache_fails size_42 m_plain None False)
      = [CacheMessageCall 0 (Some ''cache down'')]"
    by (simp add: pushFallback_def getPushInfo_def Let_def makeIfNil_def nrDeliveryPoints_def
      cacheLoop.simps cacheMessage_def push_yes_def cache_first_fails_def)
  have p: "pushErrors (pushFallback cfg_push_down size_42 m_plain None False) = [''push down'']"
    by (simp add: pushFallback_def getPushInfo_def Let_def makeIfNil_def nrDeliveryPoints_def
      cacheLoop.simps cacheMessage_def pushNotif_def reportError_def pushErrors_def
      push_yes_def cache_ok_def push_down_def)
  from fallback_errors [of cfg_cache_fails size_42 m_plain None False]
    fallback_errors [of cfg_push_down size_42 m_plain None False] h p
  show ?thesis
    by simp
qed

section \<open>Web hook timeouts\<close>

text \<open>
  Whatever the service's timeout, a hook that is a map without a timeout field and that
  parses gets the timeout 0.
\<close>

lemma setWebHook_omitted_timeout:
  assumes "map_of kv ''timeout'' = None"
    and "setWebHook ParseDuration hdl (yaml_Map kv) tmo = Inr hdl'"
  shows "Timeout hdl' = 0"
  using assms
  by (auto simp: setWebHook_def parseWebHook_def Let_def SetTimeout_def SetURL_def
      SetDefault_def split: option.splits sum.splits if_splits)

text \<open>
  C9. The claim: a hook of a service that omits its own timeout gets the service's
  timeout, 3 seconds when the service has none. \<^verbatim>\<open>parseWebHook\<close> leaves the timeout of such
  a hook at zero and \<^verbatim>\<open>setWebHook\<close> replaces negative timeouts only: for a service whose
  only field is a push hook with a url, the service's timeout is 3 seconds and the
  handler's timeout is set to 0.
\<close>

theorem hook_timeout_not_defaulted:
  "parseServiceTimeout no_duration
       [(''push'', yaml_Map [(''url'', yaml_Scalar ''http://localhost/push'')])]
     = Inr (3 * Second)
   \<and> map_of [(''url'', yaml_Scalar ''http://localhost/push'')] ''timeout'' = None
   \<and> parseServiceHook no_duration
        [(''push'', yaml_Map [(''url'', yaml_Scalar ''http://localhost/push'')])] ''push''
     = Some (Inr \<lparr>URL = ''http://localhost/push'', Timeout = 0, Default = 404\<rparr>)"
  by (simp add: parseServiceHook_def parseServiceTimeout_def parsePushHandler_def setWebHook_def
      parseWebHook_def parseString_def newWebHook_def SetTimeout_def SetURL_def SetDefault_def
      Second_def)

end
